theory Spec2Isabelle
  imports Main
begin

section \<open>Job completion: \<open>src/api/client.ts\<close>\<close>

text \<open>
  The remote job has two sub-jobs, synthesis and a linked alignment, each in one of four
  states. \<open>ProjectStatus\<close> is the internal snapshot that \<open>getProjectStatus\<close> builds from
  one remote query; both sub-job entries are optional (\<open>synthesisJob?\<close>, \<open>alignmentJob?\<close>).
\<close>

datatype JobStatus = pending | processing | completed | failed

record SynthesisJob =
  synth_status :: JobStatus
  audioUrl :: "string option"
  synth_duration :: "int option"
  synth_error :: "string option"

record AlignmentJob =
  align_status :: JobStatus
  alignmentUrl :: "string option"
  align_error :: "string option"

record ProjectStatus =
  uuid :: string
  name :: string
  status :: JobStatus
  synthesisJob :: "SynthesisJob option"
  alignmentJob :: "AlignmentJob option"

text \<open>
  Everything the code throws is a value. \<open>VocaSyncAPIError\<close> carries the message, the
  status code and the optional response body; \<open>Error\<close> is a plain JavaScript \<open>Error\<close>.
\<close>

datatype exn =
  VocaSyncAPIError string int "string option"
  | Error string

fun message :: "exn \<Rightarrow> string" where
  "message (VocaSyncAPIError m _ _) = m"
| "message (Error m) = m"

text \<open>\<open>x || "Unknown error"\<close>: an absent or empty string is falsy.\<close>

definition orUnknown :: "string option \<Rightarrow> string" where
  "orUnknown e = (case e of None \<Rightarrow> ''Unknown error''
                   | Some s \<Rightarrow> if s = [] then ''Unknown error'' else s)"

definition synthComplete :: "ProjectStatus \<Rightarrow> bool" where
  "synthComplete st = (case synthesisJob st of None \<Rightarrow> False
       | Some j \<Rightarrow> synth_status j = completed \<or> synth_status j = failed)"

definition alignComplete :: "ProjectStatus \<Rightarrow> bool" where
  "alignComplete st = (case alignmentJob st of None \<Rightarrow> False
       | Some j \<Rightarrow> align_status j = completed \<or> align_status j = failed)"

definition shouldWaitForAlignment :: "ProjectStatus \<Rightarrow> bool" where
  "shouldWaitForAlignment st = (synthComplete st \<and> alignmentJob st = None)"

text \<open>
  One pass through the body of the \<open>for\<close> loop of \<open>pollUntilComplete\<close>, after the status
  has been fetched: \<open>Some (Inl e)\<close> is a \<open>throw\<close>, \<open>Some (Inr st)\<close> a \<open>return\<close>, and \<open>None\<close>
  falls through to the \<open>sleep\<close> and the next iteration. \<open>attempt\<close> is the loop counter.
\<close>

definition pollStep :: "ProjectStatus \<Rightarrow> nat \<Rightarrow> (exn + ProjectStatus) option" where
  "pollStep st attempt =
     (if synthComplete st \<and> alignComplete st then
        (if map_option synth_status (synthesisJob st) = Some failed then
           Some (Inl (VocaSyncAPIError
             (''Synthesis failed: '' @ orUnknown (Option.bind (synthesisJob st) synth_error))
             500 None))
         else if map_option align_status (alignmentJob st) = Some failed then
           Some (Inl (VocaSyncAPIError
             (''Alignment failed: '' @ orUnknown (Option.bind (alignmentJob st) align_error))
             500 None))
         else Some (Inr st))
      else if shouldWaitForAlignment st \<and> attempt > 5 then Some (Inr st)
      else None)"

text \<open>
  The observable effects of a run: how many times \<open>getProjectStatus\<close> was called and
  for how many milliseconds the loop slept in total.
\<close>

record effects =
  polls :: nat
  slept :: int

definition pollingTimeout :: exn where
  "pollingTimeout = VocaSyncAPIError ''Polling timeout - job did not complete in time'' 408 None"

text \<open>
  The loop. Every iteration calls \<open>getProjectStatus\<close> exactly once, so the call made in
  iteration \<open>attempt\<close> is call number \<open>attempt\<close> (from 0); \<open>poll n\<close> is what call number
  \<open>n\<close> yields: a status, or the error it throws, which leaves the loop at once. The
  progress callback only observes and is left out.
\<close>

function pollLoop ::
  "(nat \<Rightarrow> exn + ProjectStatus) \<Rightarrow> int \<Rightarrow> int \<Rightarrow> nat \<Rightarrow> effects
     \<Rightarrow> (exn + ProjectStatus) \<times> effects" where
  "pollLoop poll maxAttempts intervalMs attempt fx =
     (if int attempt < maxAttempts then
        (case poll attempt of
           Inl e \<Rightarrow> (Inl e, fx\<lparr>polls := polls fx + 1\<rparr>)
         | Inr st \<Rightarrow>
             (case pollStep st attempt of
                Some r \<Rightarrow> (r, fx\<lparr>polls := polls fx + 1\<rparr>)
              | None \<Rightarrow> pollLoop poll maxAttempts intervalMs (attempt + 1)
                          (fx\<lparr>polls := polls fx + 1, slept := slept fx + intervalMs\<rparr>)))
      else (Inl pollingTimeout, fx))"
  by pat_completeness auto
termination
  by (relation "measure (\<lambda>(poll, maxAttempts, intervalMs, attempt, fx).
                  nat (maxAttempts - int attempt))") auto

declare pollLoop.simps [simp del]

record PollOptions =
  maxAttempts :: "int option"
  intervalMs :: "int option"

definition noOptions :: PollOptions where
  "noOptions = \<lparr>maxAttempts = None, intervalMs = None\<rparr>"

definition pollUntilComplete ::
  "(nat \<Rightarrow> exn + ProjectStatus) \<Rightarrow> PollOptions \<Rightarrow> (exn + ProjectStatus) \<times> effects" where
  "pollUntilComplete poll options =
     pollLoop poll
       (case maxAttempts options of None \<Rightarrow> 120 | Some m \<Rightarrow> m)
       (case intervalMs options of None \<Rightarrow> 5000 | Some i \<Rightarrow> i)
       0 \<lparr>polls = 0, slept = 0\<rparr>"

section \<open>Per-document sync: \<open>src/sync/orchestrator.ts\<close>\<close>

record ContentItem =
  slug :: string
  content :: string
  filePath :: string

record SpeechDocument =
  doc_slug :: string
  doc_text :: string
  doc_hash :: string
  doc_source :: string

record AudioArtifact =
  projectUuid :: string
  contentHash :: string
  art_duration :: int
  art_audioUrl :: string
  art_alignmentUrl :: string
  publishableKey :: "string option"
  createdAt :: string
  updatedAt :: string

record AudioMap =
  version :: nat
  map_updatedAt :: string
  entries :: "string \<rightharpoonup> AudioArtifact"

datatype SyncStatus = unchanged | new | updated | error

record SyncResult =
  res_slug :: string
  res_status :: SyncStatus
  res_projectUuid :: "string option"
  res_error :: "string option"

record SynthesisConfig =
  voice :: string
  quality :: string
  language :: string

text \<open>
  The collaborators of \<open>processItem\<close>, each as the value it returns or the error it
  throws: the speech builder, the two remote calls, the scripted status poller of a
  project, and the clock (\<open>clock n\<close> is the \<open>n\<close>-th reading of \<open>new Date().toISOString()\<close>).
\<close>

record world =
  buildSpeechDocument :: "ContentItem \<Rightarrow> exn + SpeechDocument"
  synthesize :: "string \<Rightarrow> string \<Rightarrow> SynthesisConfig \<Rightarrow> exn + string"
  getProjectStatus :: "string \<Rightarrow> nat \<Rightarrow> exn + ProjectStatus"
  getAlignment :: "string \<Rightarrow> exn + int"
  clock :: "nat \<Rightarrow> string"

definition getAudioEntry :: "AudioMap \<Rightarrow> string \<Rightarrow> AudioArtifact option" where
  "getAudioEntry audioMap s = entries audioMap s"

definition setAudioEntry :: "AudioMap \<Rightarrow> string \<Rightarrow> AudioArtifact \<Rightarrow> AudioMap" where
  "setAudioEntry audioMap s artifact = audioMap\<lparr>entries := (entries audioMap)(s \<mapsto> artifact)\<rparr>"

definition hasChanged :: "string option \<Rightarrow> string \<Rightarrow> bool" where
  "hasChanged oldHash newHash = (oldHash \<noteq> Some newHash)"

definition baseUrl :: string where
  "baseUrl = ''https://vocasync.io/api/v1''"

text \<open>The catch block of \<open>processItem\<close>: any thrown error becomes an \<open>error\<close> result.\<close>

definition caught :: "ContentItem \<Rightarrow> exn \<Rightarrow> SyncResult" where
  "caught item e = \<lparr>res_slug = slug item, res_status = error, res_projectUuid = None,
                     res_error = Some (message e)\<rparr>"

text \<open>
  \<open>processItem\<close>, with the audio map it mutates returned next to the result.
  \<open>synthesize\<close> yields the project UUID of its response; \<open>getAlignment\<close> yields the
  duration of the alignment data, the only field used here. \<open>pollUntilComplete\<close> is
  called with a progress callback only, hence with the default limits.
\<close>

definition processItem ::
  "world \<Rightarrow> SynthesisConfig \<Rightarrow> ContentItem \<Rightarrow> AudioMap \<Rightarrow> bool \<Rightarrow> bool
     \<Rightarrow> SyncResult \<times> AudioMap" where
  "processItem W config item audioMap force dryRun =
     (case buildSpeechDocument W item of
        Inl e \<Rightarrow> (caught item e, audioMap)
      | Inr speechDoc \<Rightarrow>
          (let existingEntry = getAudioEntry audioMap (slug item);
               contentChanged = hasChanged (map_option contentHash existingEntry) (doc_hash speechDoc)
           in if \<not> force \<and> \<not> contentChanged \<and> existingEntry \<noteq> None then
                (\<lparr>res_slug = slug item, res_status = unchanged, res_projectUuid = None,
                  res_error = None\<rparr>, audioMap)
              else
                (let st = (if existingEntry \<noteq> None then updated else new)
                 in if dryRun then
                      (\<lparr>res_slug = slug item, res_status = st, res_projectUuid = None,
                        res_error = None\<rparr>, audioMap)
                    else
                      (case synthesize W (''astro-'' @ slug item) (doc_text speechDoc) config of
                         Inl e \<Rightarrow> (caught item e, audioMap)
                       | Inr pu \<Rightarrow>
                           (case fst (pollUntilComplete (getProjectStatus W pu) noOptions) of
                              Inl e \<Rightarrow> (caught item e, audioMap)
                            | Inr finalStatus \<Rightarrow>
                                (case Option.bind (alignmentJob finalStatus) alignmentUrl of
                                   None \<Rightarrow>
                                     (caught item (Error ''No alignment URL returned''), audioMap)
                                 | Some url \<Rightarrow>
                                     if url = [] then
                                       (caught item (Error ''No alignment URL returned''), audioMap)
                                     else
                                       (case getAlignment W url of
                                          Inl e \<Rightarrow> (caught item e, audioMap)
                                        | Inr dur \<Rightarrow>
                                            (let kept =
                                                   (case existingEntry of
                                                      None \<Rightarrow> False
                                                    | Some en \<Rightarrow> createdAt en \<noteq> []);
                                                 created =
                                                   (if kept
                                                    then createdAt (the existingEntry)
                                                    else clock W 0);
                                                 artifact = \<lparr>projectUuid = pu,
                                                   contentHash = doc_hash speechDoc,
                                                   art_duration = dur,
                                                   art_audioUrl =
                                                     baseUrl @ ''/stream/'' @ pu @ ''/synthesis'',
                                                   art_alignmentUrl =
                                                     baseUrl @ ''/stream/'' @ pu @ ''/alignment'',
                                                   publishableKey = None,
                                                   createdAt = created,
                                                   updatedAt =
                                                     clock W (if kept then 0 else 1)\<rparr>
                                             in (\<lparr>res_slug = slug item, res_status = st,
                                                   res_projectUuid = Some pu, res_error = None\<rparr>,
                                                 setAudioEntry audioMap (slug item) artifact)))))))))"

section \<open>Word matching: \<open>src/rehype/audio-words.ts\<close>\<close>

text \<open>
  Text is a list of Unicode code points: the word pattern and the normalising pattern
  both carry the \<open>u\<close> flag and so classify whole code points. \<open>str\<close> embeds a literal.
\<close>

type_synonym codepoint = nat
type_synonym ustring = "codepoint list"

definition str :: "string \<Rightarrow> ustring" where
  "str s = map of_char s"

record 't AlignedWord =
  word :: ustring
  startTime :: 't
  endTime :: 't

text \<open>
  What the JavaScript runtime supplies and the repository does not define: the Unicode
  property classes \<open>\p{L}\<close> and \<open>\p{N}\<close> (one predicate for their union),
  \<open>String.prototype.toLowerCase\<close>, and \<open>Number.prototype.toFixed(3)\<close> on the type \<open>'t\<close>
  of time values.
\<close>

record 't runtime =
  isLetterOrNumber :: "codepoint \<Rightarrow> bool"
  toLowerCase :: "ustring \<Rightarrow> ustring"
  toFixed3 :: "'t \<Rightarrow> ustring"

text \<open>The character class of \<open>wordPattern\<close>: a letter, a number or the apostrophe U+0027.\<close>

definition isWordChar :: "'t runtime \<Rightarrow> codepoint \<Rightarrow> bool" where
  "isWordChar E c = (isLetterOrNumber E c \<or> c = 39)"

text \<open>The white space and line terminators that \<open>String.prototype.trim\<close> removes.\<close>

definition isWhiteSpace :: "codepoint \<Rightarrow> bool" where
  "isWhiteSpace c = (c \<in> set [9, 10, 11, 12, 13, 32, 160, 5760, 8192, 8193, 8194, 8195, 8196,
      8197, 8198, 8199, 8200, 8201, 8202, 8232, 8233, 8239, 8287, 12288, 65279])"

definition trim :: "ustring \<Rightarrow> ustring" where
  "trim s = rev (dropWhile isWhiteSpace (rev (dropWhile isWhiteSpace s)))"

definition normalizeWord :: "'t runtime \<Rightarrow> ustring \<Rightarrow> ustring" where
  "normalizeWord E w = trim (filter (isLetterOrNumber E) (toLowerCase E w))"

subsection \<open>The document tree\<close>

datatype prim = PStr ustring | PNum int | PBool bool

datatype propval = Single prim | Array "prim list"

datatype hast =
  Root "hast list"
  | Element ustring "(string \<times> propval) list" "hast list"
  | Text ustring

definition nonTextualTags :: "ustring list" where
  "nonTextualTags = [str ''code'', str ''pre'', str ''script'', str ''style'', str ''svg'',
                     str ''math'']"

definition nonTextualClasses :: "ustring list" where
  "nonTextualClasses = [str ''katex'', str ''katex-mathml'', str ''katex-html'',
                        str ''mjx-container'']"

text \<open>JavaScript truthiness of a property value; an array is always truthy.\<close>

fun truthy :: "propval \<Rightarrow> bool" where
  "truthy (Single (PStr s)) = (s \<noteq> [])"
| "truthy (Single (PNum n)) = (n \<noteq> 0)"
| "truthy (Single (PBool b)) = b"
| "truthy (Array _) = True"

fun isNonTextualClass :: "prim \<Rightarrow> bool" where
  "isNonTextualClass (PStr s) = (s \<in> set nonTextualClasses)"
| "isNonTextualClass _ = False"

fun hasNonTextualTag :: "hast \<Rightarrow> bool" where
  "hasNonTextualTag (Element t _ _) = (t \<in> set nonTextualTags)"
| "hasNonTextualTag _ = False"

fun hasNonTextualClass :: "hast \<Rightarrow> bool" where
  "hasNonTextualClass (Element _ props _) =
     (case map_of props ''className'' of
        None \<Rightarrow> False
      | Some v \<Rightarrow>
          if truthy v then
            list_ex isNonTextualClass (case v of Array cs \<Rightarrow> cs | Single c \<Rightarrow> [c])
          else False)"
| "hasNonTextualClass _ = False"

fun isInNonTextualElement :: "hast list \<Rightarrow> bool" where
  "isInNonTextualElement [] = False"
| "isInNonTextualElement (ancestor # rest) =
     (if hasNonTextualTag ancestor then True
      else if hasNonTextualClass ancestor then True
      else isInNonTextualElement rest)"

subsection \<open>\<open>processTextNode\<close>\<close>

text \<open>
  One call of \<open>wordPattern.exec\<close> on the text that remains after \<open>lastIndex\<close>: \<open>None\<close> when
  no word character is left, otherwise the text skipped before the match
  (\<open>text.slice(lastEnd, start)\<close>), the matched word (the longest run of word characters
  from the first one found), and the text after the match.
\<close>

definition execWordPattern ::
  "'t runtime \<Rightarrow> ustring \<Rightarrow> (ustring \<times> ustring \<times> ustring) option" where
  "execWordPattern E rest =
     (case dropWhile (\<lambda>c. \<not> isWordChar E c) rest of
        [] \<Rightarrow> None
      | c # cs \<Rightarrow> Some (takeWhile (\<lambda>c. \<not> isWordChar E c) rest,
                        c # takeWhile (isWordChar E) cs,
                        dropWhile (isWordChar E) cs))"

text \<open>
  The inner \<open>for\<close> loop: the first index \<open>i\<close> from \<open>i\<close> up to (not including) \<open>bound\<close> whose
  entry normalises to \<open>normalizedWord\<close>; \<open>None\<close> stands for \<open>matchedIndex = -1\<close>.
\<close>

function searchFrom ::
  "'t runtime \<Rightarrow> 't AlignedWord list \<Rightarrow> ustring \<Rightarrow> nat \<Rightarrow> nat \<Rightarrow> nat option" where
  "searchFrom E words normalizedWord bound i =
     (if i < bound then
        (if normalizeWord E (word (words ! i)) = normalizedWord then Some i
         else searchFrom E words normalizedWord bound (i + 1))
      else None)"
  by pat_completeness auto
termination
  by (relation "measure (\<lambda>(E, words, normalizedWord, bound, i). bound - i)") auto

declare searchFrom.simps [simp del]

definition maxLookahead :: nat where
  "maxLookahead = 10"

definition findMatch :: "'t runtime \<Rightarrow> 't AlignedWord list \<Rightarrow> ustring \<Rightarrow> nat \<Rightarrow> nat option" where
  "findMatch E words w wordIndex =
     searchFrom E words (normalizeWord E w) (min (wordIndex + maxLookahead) (length words))
       wordIndex"

definition wordSpan :: "'t runtime \<Rightarrow> ustring \<Rightarrow> ustring \<Rightarrow> nat \<Rightarrow> 't AlignedWord \<Rightarrow> hast" where
  "wordSpan E classPrefix w matchedIndex matchedAligned =
     Element (str ''span'')
       [(''className'', Array [PStr (classPrefix @ str ''-word'')]),
        (''data-word-index'', Single (PNum (int matchedIndex))),
        (''data-start'', Single (PStr (toFixed3 E (startTime matchedAligned)))),
        (''data-end'', Single (PStr (toFixed3 E (endTime matchedAligned))))]
       [Text w]"

text \<open>
  The part of the \<open>while\<close> body that handles one matched token: the node pushed for it
  and the word index afterwards.
\<close>

definition matchToken ::
  "'t runtime \<Rightarrow> 't AlignedWord list \<Rightarrow> ustring \<Rightarrow> ustring \<Rightarrow> nat \<Rightarrow> hast \<times> nat" where
  "matchToken E words classPrefix w wordIndex =
     (case findMatch E words w wordIndex of
        Some matchedIndex \<Rightarrow>
          (wordSpan E classPrefix w matchedIndex (words ! matchedIndex), matchedIndex + 1)
      | None \<Rightarrow> (Text w, wordIndex))"

text \<open>
  The \<open>while\<close> loop together with the "remaining text" step after it. \<open>rest\<close> is the text
  from \<open>lastEnd\<close> on, \<open>nodes\<close> the nodes pushed so far.
\<close>

function scanWords ::
  "'t runtime \<Rightarrow> 't AlignedWord list \<Rightarrow> ustring \<Rightarrow> ustring \<Rightarrow> nat \<Rightarrow> hast list
     \<Rightarrow> hast list \<times> nat" where
  "scanWords E words classPrefix rest wordIndex nodes =
     (case execWordPattern E rest of
        None \<Rightarrow> (if rest \<noteq> [] then nodes @ [Text rest] else nodes, wordIndex)
      | Some (skipped, w, remaining) \<Rightarrow>
          (case matchToken E words classPrefix w wordIndex of
             (node, wordIndex') \<Rightarrow>
               scanWords E words classPrefix remaining wordIndex'
                 ((if skipped \<noteq> [] then nodes @ [Text skipped] else nodes) @ [node])))"
  by pat_completeness auto
termination
proof (relation "measure (\<lambda>(E, words, classPrefix, rest, wordIndex, nodes). length rest)")
  show "wf (measure (\<lambda>(E :: 't runtime, words :: 't AlignedWord list, classPrefix :: ustring,
                      rest :: ustring, wordIndex :: nat, nodes :: hast list). length rest))"
    by simp
next
  fix E :: "'t runtime" and words :: "'t AlignedWord list" and classPrefix rest :: ustring
    and wordIndex :: nat and nodes :: "hast list" and x2 skipped y w remaining x and node wordIndex'
  assume ex: "execWordPattern E rest = Some x2" and x2: "(skipped, y) = x2" and y: "(w, remaining) = y"
  from ex x2 y obtain c cs where d: "dropWhile (\<lambda>c. \<not> isWordChar E c) rest = c # cs"
    and a: "remaining = dropWhile (isWordChar E) cs"
    by (auto simp: execWordPattern_def split: list.splits)
  have "length remaining \<le> length cs" using a by (simp add: length_dropWhile_le)
  moreover have "length (c # cs) \<le> length rest"
    using length_dropWhile_le [of "\<lambda>c. \<not> isWordChar E c" rest] d by simp
  ultimately have "length remaining < length rest" by simp
  then show "((E, words, classPrefix, remaining, wordIndex', (if skipped \<noteq> [] then nodes @ [Text skipped] else nodes) @ [node]),
              (E, words, classPrefix, rest, wordIndex, nodes))
             \<in> measure (\<lambda>(E, words, classPrefix, rest, wordIndex, nodes). length rest)"
    by simp
qed

declare scanWords.simps [simp del]

text \<open>The merge loop: a text node is appended to a preceding text node, anything else is pushed.\<close>

fun mergeStep :: "hast list \<Rightarrow> hast \<Rightarrow> hast list" where
  "mergeStep merged (Text v) =
     (if merged = [] then [Text v]
      else (case last merged of
              Text lv \<Rightarrow> butlast merged @ [Text (lv @ v)]
            | _ \<Rightarrow> merged @ [Text v]))"
| "mergeStep merged node = merged @ [node]"

definition mergeNodes :: "hast list \<Rightarrow> hast list" where
  "mergeNodes nodes = foldl mergeStep [] nodes"

record processed =
  nodes :: "hast list"
  nextWordIndex :: nat

definition processTextNode ::
  "'t runtime \<Rightarrow> ustring \<Rightarrow> 't AlignedWord list \<Rightarrow> nat \<Rightarrow> ustring \<Rightarrow> processed" where
  "processTextNode E text words startIndex classPrefix =
     (case scanWords E words classPrefix text startIndex [] of
        (ns, wordIndex) \<Rightarrow> \<lparr>nodes = mergeNodes ns, nextWordIndex = wordIndex\<rparr>)"

text \<open>The text a node carries: its own value, or that of its children in order.\<close>

fun nodeText :: "hast \<Rightarrow> ustring" where
  "nodeText (Text v) = v"
| "nodeText (Element _ _ kids) = concat (map nodeText kids)"
| "nodeText (Root kids) = concat (map nodeText kids)"

text \<open>
  A render pass over the texts of one document: one call per text, each starting from
  the word index that the call before it returned. The result lists the index before the
  first call and after every call.
\<close>

fun threadCursor ::
  "'t runtime \<Rightarrow> 't AlignedWord list \<Rightarrow> ustring \<Rightarrow> ustring list \<Rightarrow> nat \<Rightarrow> nat list" where
  "threadCursor E words classPrefix [] wordIndex = [wordIndex]"
| "threadCursor E words classPrefix (t # ts) wordIndex =
     wordIndex # threadCursor E words classPrefix ts
                   (nextWordIndex (processTextNode E t words wordIndex classPrefix))"

subsection \<open>The visitor of \<open>rehypeAudioWords\<close>\<close>

text \<open>
  The callback handed to \<open>visitParents\<close>, called for a text node with value \<open>v\<close> under
  \<open>ancestors\<close>. Its state is the shared \<open>wordIndex\<close> and the children of the node's parent.
  \<open>nodeIndex\<close> is the result of \<open>parentChildren.indexOf(node)\<close>, which compares by identity
  (\<open>None\<close> for \<open>-1\<close>); \<open>splice(nodeIndex, 1, ...result.nodes)\<close> replaces that one child.
\<close>

definition visitor ::
  "'t runtime \<Rightarrow> 't AlignedWord list \<Rightarrow> ustring \<Rightarrow> hast list \<Rightarrow> ustring \<Rightarrow> nat option
     \<Rightarrow> nat \<times> hast list \<Rightarrow> nat \<times> hast list" where
  "visitor E words classPrefix ancestors v nodeIndex state =
     (case state of (wordIndex, parentChildren) \<Rightarrow>
        if isInNonTextualElement ancestors then (wordIndex, parentChildren)
        else
          (let result = processTextNode E v words wordIndex classPrefix
           in if length (nodes result) = 0 \<or> length (nodes result) = 1 then
                (wordIndex, parentChildren)
              else
                (nextWordIndex result,
                 (case nodeIndex of
                    None \<Rightarrow> parentChildren
                  | Some i \<Rightarrow> take i parentChildren @ nodes result @ drop (i + 1) parentChildren))))"

subsection \<open>The alignment cache\<close>

text \<open>
  What one \<open>curl\<close> invocation followed by \<open>JSON.parse\<close> gives: either of them throws, the
  parsed value has no \<open>words\<close> array, or it has one.
\<close>

datatype 't fetched = Threw | NoWords | Words "'t AlignedWord list"

text \<open>
  The module-level \<open>alignmentCache\<close>, keyed by slug, together with the log of the URLs
  fetched so far. \<open>remote n url\<close> is the outcome of fetch number \<open>n\<close> (from 0) of the run.
\<close>

record 't cacheState =
  alignmentCache :: "string \<rightharpoonup> 't AlignedWord list"
  fetchLog :: "string list"

definition fetchAlignmentSync ::
  "(nat \<Rightarrow> string \<Rightarrow> 't fetched) \<Rightarrow> string \<Rightarrow> string \<Rightarrow> 't cacheState
     \<Rightarrow> 't AlignedWord list option \<times> 't cacheState" where
  "fetchAlignmentSync remote url s st =
     (case alignmentCache st s of
        Some ws \<Rightarrow> (Some ws, st)
      | None \<Rightarrow>
          (let st1 = st\<lparr>fetchLog := fetchLog st @ [url]\<rparr>
           in case remote (length (fetchLog st)) url of
                Words ws \<Rightarrow> (Some ws, st1\<lparr>alignmentCache := (alignmentCache st1)(s \<mapsto> ws)\<rparr>)
              | NoWords \<Rightarrow> (None, st1)
              | Threw \<Rightarrow> (None, st1)))"

text \<open>
  The state of the cache after a run of requests, each given as a URL and a slug.
\<close>

fun afterRequests ::
  "(nat \<Rightarrow> string \<Rightarrow> 't fetched) \<Rightarrow> (string \<times> string) list \<Rightarrow> 't cacheState \<Rightarrow> 't cacheState" where
  "afterRequests remote [] st = st"
| "afterRequests remote ((url, s) # rs) st =
     afterRequests remote rs (snd (fetchAlignmentSync remote url s st))"

section \<open>Concrete inputs\<close>

text \<open>A status with synthesis completed and no alignment job linked.\<close>

definition doneNoAlign :: ProjectStatus where
  "doneNoAlign = \<lparr>uuid = ''p1'', name = ''astro-post'', status = completed,
     synthesisJob = Some \<lparr>synth_status = completed, audioUrl = Some ''/stream/p1/synthesis'',
                          synth_duration = Some 12, synth_error = None\<rparr>,
     alignmentJob = None\<rparr>"

definition stillProcessing :: ProjectStatus where
  "stillProcessing = \<lparr>uuid = ''p1'', name = ''astro-post'', status = processing,
     synthesisJob = Some \<lparr>synth_status = processing, audioUrl = None,
                          synth_duration = None, synth_error = None\<rparr>,
     alignmentJob = None\<rparr>"

definition bothFailed :: ProjectStatus where
  "bothFailed = \<lparr>uuid = ''p1'', name = ''astro-post'', status = failed,
     synthesisJob = Some \<lparr>synth_status = failed, audioUrl = None,
                          synth_duration = None, synth_error = Some ''voice unavailable''\<rparr>,
     alignmentJob = Some \<lparr>align_status = failed, alignmentUrl = None,
                          align_error = Some ''no audio''\<rparr>\<rparr>"

text \<open>Synthesis is still running during the first six polls and is complete from the seventh.\<close>

definition lateScript :: "nat \<Rightarrow> exn + ProjectStatus" where
  "lateScript n = (if n < 6 then Inr stillProcessing else Inr doneNoAlign)"

definition post :: ContentItem where
  "post = \<lparr>slug = ''hello'', content = ''Hello world.'', filePath = ''hello.md''\<rparr>"

definition emptyMap :: AudioMap where
  "emptyMap = \<lparr>version = 2, map_updatedAt = ''2024-01-01T00:00:00.000Z'', entries = Map.empty\<rparr>"

definition enUS :: SynthesisConfig where
  "enUS = \<lparr>voice = ''alloy'', quality = ''sd'', language = ''en-US''\<rparr>"

text \<open>A run in which every collaborator succeeds and the remote never links an alignment.\<close>

definition unlinked :: world where
  "unlinked = \<lparr>
     buildSpeechDocument = (\<lambda>item. Inr \<lparr>doc_slug = slug item, doc_text = content item,
                                         doc_hash = ''h1'', doc_source = filePath item\<rparr>),
     synthesize = (\<lambda>n t c. Inr ''p1''),
     getProjectStatus = (\<lambda>pu n. Inr doneNoAlign),
     getAlignment = (\<lambda>url. Inr 12),
     clock = (\<lambda>n. ''2024-01-02T00:00:00.000Z'')\<rparr>"

text \<open>An ASCII runtime, with times in whole milliseconds.\<close>

definition digit3 :: "nat \<Rightarrow> ustring" where
  "digit3 n = [48 + n div 100 mod 10, 48 + n div 10 mod 10, 48 + n mod 10]"

definition ascii :: "nat runtime" where
  "ascii = \<lparr>
     isLetterOrNumber = (\<lambda>c. (48 \<le> c \<and> c \<le> 57) \<or> (65 \<le> c \<and> c \<le> 90) \<or> (97 \<le> c \<and> c \<le> 122)),
     toLowerCase = map (\<lambda>c. if 65 \<le> c \<and> c \<le> 90 then c + 32 else c),
     toFixed3 = (\<lambda>ms. [48 + ms div 1000 mod 10, 46] @ digit3 (ms mod 1000))\<rparr>"

definition theCatSat :: "nat AlignedWord list" where
  "theCatSat = [\<lparr>word = str ''the'', startTime = 0, endTime = 200\<rparr>,
                \<lparr>word = str ''cat'', startTime = 200, endTime = 500\<rparr>,
                \<lparr>word = str ''sat'', startTime = 500, endTime = 900\<rparr>]"

text \<open>A track of eleven words whose last entry is the only one spelling \<open>cat\<close>.\<close>

definition longTrack :: "nat AlignedWord list" where
  "longTrack = map (\<lambda>(w, s). \<lparr>word = str w, startTime = s, endTime = s + 250\<rparr>)
     [(''The'', 0), (''quick'', 300), (''brown'', 600), (''fox'', 900), (''jumps'', 1200),
      (''over'', 1500), (''a'', 1800), (''lazy'', 2100), (''dog'', 2400), (''and'', 2700),
      (''cat'', 3000)]"

definition alwaysThrows :: "nat \<Rightarrow> string \<Rightarrow> nat fetched" where
  "alwaysThrows n url = Threw"

text \<open>A remote whose first fetch throws and whose later fetches deliver a words array.\<close>

definition succeedsSecond :: "nat \<Rightarrow> string \<Rightarrow> nat fetched" where
  "succeedsSecond n url = (if n = 0 then Threw else Words theCatSat)"

definition emptyCache :: "nat cacheState" where
  "emptyCache = \<lparr>alignmentCache = Map.empty, fetchLog = []\<rparr>"

section \<open>Properties of the polling loop\<close>

text \<open>
  While no poll ends the loop, the loop only counts: after the quiet polls \<open>a, \<dots>, k - 1\<close>
  it stands at iteration \<open>k\<close>, having polled and slept \<open>k - a\<close> more times.
\<close>

lemma pollLoop_skip:
  assumes quiet: "\<forall>j. a \<le> j \<and> j < k \<longrightarrow> (\<exists>st. poll j = Inr st \<and> pollStep st j = None)"
    and le: "a \<le> k" and bound: "int k \<le> m"
  shows "pollLoop poll m i a fx =
         pollLoop poll m i k (fx\<lparr>polls := polls fx + (k - a), slept := slept fx + int (k - a) * i\<rparr>)"
  using le quiet bound
proof (induction k rule: dec_induct)
  case base
  show ?case by simp
next
  case (step n)
  from step.prems(1) step.hyps obtain st where st: "poll n = Inr st" "pollStep st n = None"
    by auto
  have lt: "int n < m" using step.prems(2) by simp
  have "pollLoop poll m i a fx =
        pollLoop poll m i n (fx\<lparr>polls := polls fx + (n - a), slept := slept fx + int (n - a) * i\<rparr>)"
    using step.IH step.prems step.hyps by simp
  also have "\<dots> = pollLoop poll m i (Suc n)
        (fx\<lparr>polls := polls fx + (Suc n - a), slept := slept fx + int (Suc n - a) * i\<rparr>)"
    using st lt step.hyps
    by (subst pollLoop.simps) (simp add: Suc_diff_le algebra_simps)
  finally show ?case .
qed

lemma pollLoop_from_start:
  assumes "\<forall>j<k. \<exists>st. poll j = Inr st \<and> pollStep st j = None" and "int k \<le> m"
  shows "pollLoop poll m i 0 \<lparr>polls = 0, slept = 0\<rparr> =
         pollLoop poll m i k \<lparr>polls = k, slept = int k * i\<rparr>"
  using pollLoop_skip [of 0 k poll m i "\<lparr>polls = 0, slept = 0\<rparr>"] assms by simp

lemma pollLoop_exhausted:
  "\<not> int a < m \<Longrightarrow> pollLoop poll m i a fx = (Inl pollingTimeout, fx)"
  by (subst pollLoop.simps) simp

lemma pollLoop_stops:
  "int a < m \<Longrightarrow> poll a = Inr st \<Longrightarrow> pollStep st a = Some r \<Longrightarrow>
   pollLoop poll m i a fx = (r, fx\<lparr>polls := polls fx + 1\<rparr>)"
  by (subst pollLoop.simps) simp

text \<open>
  C8. Without options the limits are 120 attempts and 5000 ms. Whenever each of the
  first \<open>maxAttempts\<close> polls returns a status on which no exit of the loop fires, the
  run ends with the polling-timeout error (status code 408) after exactly \<open>maxAttempts\<close>
  polls and as many sleeps of \<open>intervalMs\<close>: no success is returned and no further poll
  is made.
\<close>

theorem pollUntilComplete_defaults_and_timeout:
  "pollUntilComplete poll \<lparr>maxAttempts = None, intervalMs = None\<rparr> =
     pollUntilComplete poll \<lparr>maxAttempts = Some 120, intervalMs = Some 5000\<rparr>
   \<and> ((\<forall>j. int j < m \<longrightarrow> (\<exists>st. poll j = Inr st \<and> pollStep st j = None)) \<longrightarrow>
        pollUntilComplete poll \<lparr>maxAttempts = Some m, intervalMs = Some i\<rparr> =
          (Inl pollingTimeout, \<lparr>polls = nat m, slept = int (nat m) * i\<rparr>))"
proof (intro conjI impI)
  show "pollUntilComplete poll \<lparr>maxAttempts = None, intervalMs = None\<rparr> =
     pollUntilComplete poll \<lparr>maxAttempts = Some 120, intervalMs = Some 5000\<rparr>"
    by (simp add: pollUntilComplete_def)
next
  assume quiet: "\<forall>j. int j < m \<longrightarrow> (\<exists>st. poll j = Inr st \<and> pollStep st j = None)"
  show "pollUntilComplete poll \<lparr>maxAttempts = Some m, intervalMs = Some i\<rparr> =
          (Inl pollingTimeout, \<lparr>polls = nat m, slept = int (nat m) * i\<rparr>)"
  proof (cases "0 \<le> m")
    case True
    have "pollLoop poll m i 0 \<lparr>polls = 0, slept = 0\<rparr> =
          pollLoop poll m i (nat m) \<lparr>polls = nat m, slept = int (nat m) * i\<rparr>"
      using quiet True by (intro pollLoop_from_start) auto
    then show ?thesis
      using True by (simp add: pollUntilComplete_def pollLoop_exhausted)
  next
    case False
    then show ?thesis
      by (simp add: pollUntilComplete_def pollLoop_exhausted)
  qed
qed

theorem pollUntilComplete_defaults_and_timeout_witness:
  "pollUntilComplete (\<lambda>n. Inr stillProcessing) noOptions =
     (Inl pollingTimeout, \<lparr>polls = 120, slept = 600000\<rparr>)"
proof -
  have quiet: "\<forall>j. int j < 120 \<longrightarrow>
      (\<exists>st. (\<lambda>n. Inr stillProcessing :: exn + ProjectStatus) j = Inr st \<and> pollStep st j = None)"
    by (simp add: pollStep_def synthComplete_def alignComplete_def shouldWaitForAlignment_def
        stillProcessing_def)
  show ?thesis
    using pollUntilComplete_defaults_and_timeout [of "\<lambda>n. Inr stillProcessing" 120 5000] quiet
    by (simp add: noOptions_def)
qed

text \<open>
  C6. When the first poll that ends the loop shows both sub-jobs failed, the error thrown
  is the synthesis one, \<open>Synthesis failed: \<close> followed by the synthesis job's error
  message (or by \<open>Unknown error\<close> when that message is absent or empty), with status code
  500; the alignment job's failure is not reported.
\<close>

theorem both_failed_reports_synthesis:
  assumes quiet: "\<forall>j<k. \<exists>st. poll j = Inr st \<and> pollStep st j = None"
    and inside: "int k < m"
    and view: "poll k = Inr st"
    and synth: "synthesisJob st = Some sj" "synth_status sj = failed"
    and align: "alignmentJob st = Some aj" "align_status aj = failed"
  shows "fst (pollUntilComplete poll \<lparr>maxAttempts = Some m, intervalMs = Some i\<rparr>) =
           Inl (VocaSyncAPIError (''Synthesis failed: '' @ orUnknown (synth_error sj)) 500 None)
         \<and> (\<forall>errA. synth_error sj = Some errA \<and> errA \<noteq> [] \<longrightarrow>
              fst (pollUntilComplete poll \<lparr>maxAttempts = Some m, intervalMs = Some i\<rparr>) =
                Inl (VocaSyncAPIError (''Synthesis failed: '' @ errA) 500 None))"
proof -
  let ?e = "VocaSyncAPIError (''Synthesis failed: '' @ orUnknown (synth_error sj)) 500 None"
  have step: "pollStep st k = Some (Inl ?e)"
    using synth align by (simp add: pollStep_def synthComplete_def alignComplete_def)
  have skip: "pollLoop poll m i 0 \<lparr>polls = 0, slept = 0\<rparr> =
        pollLoop poll m i k \<lparr>polls = k, slept = int k * i\<rparr>"
    using quiet inside by (intro pollLoop_from_start) auto
  have stop: "pollLoop poll m i k \<lparr>polls = k, slept = int k * i\<rparr> =
        (Inl ?e, \<lparr>polls = k, slept = int k * i\<rparr>\<lparr>polls := polls \<lparr>polls = k, slept = int k * i\<rparr> + 1\<rparr>)"
    using inside view step by (rule pollLoop_stops)
  have main: "fst (pollUntilComplete poll \<lparr>maxAttempts = Some m, intervalMs = Some i\<rparr>) = Inl ?e"
    unfolding pollUntilComplete_def by (simp add: skip stop)
  have "orUnknown (Some errA) = errA" if "errA \<noteq> []" for errA
    using that by (simp add: orUnknown_def)
  with main show ?thesis by simp
qed

theorem both_failed_reports_synthesis_witness:
  "fst (pollUntilComplete (\<lambda>n. if n < 2 then Inr stillProcessing else Inr bothFailed) noOptions) =
     Inl (VocaSyncAPIError ''Synthesis failed: voice unavailable'' 500 None)"
proof -
  let ?poll = "\<lambda>n::nat. if n < 2 then Inr stillProcessing else (Inr bothFailed :: exn + ProjectStatus)"
  have quiet: "\<forall>j<2. \<exists>st. ?poll j = Inr st \<and> pollStep st j = None"
    by (simp add: pollStep_def synthComplete_def alignComplete_def shouldWaitForAlignment_def
        stillProcessing_def)
  have view: "?poll 2 = Inr bothFailed" by simp
  have r: "fst (pollUntilComplete ?poll \<lparr>maxAttempts = Some 120, intervalMs = Some 5000\<rparr>) =
           Inl (VocaSyncAPIError (''Synthesis failed: '' @ orUnknown (synth_error 
        \<lparr>synth_status = failed, audioUrl = None, synth_duration = None,
          synth_error = Some ''voice unavailable''\<rparr>)) 500 None)"
    using both_failed_reports_synthesis [of 2 ?poll 120 bothFailed
        "\<lparr>synth_status = failed, audioUrl = None, synth_duration = None,
          synth_error = Some ''voice unavailable''\<rparr>"
        "\<lparr>align_status = failed, alignmentUrl = None, align_error = Some ''no audio''\<rparr>" 5000,
        OF quiet _ view]
    by (simp add: bothFailed_def)
  then show ?thesis
    by (simp add: pollUntilComplete_def noOptions_def orUnknown_def)
qed

text \<open>
  C1. The exit for an alignment job that never appears tests the loop counter itself
  (\<open>attempt > 5\<close>), not the number of polls since synthesis completed. When synthesis
  is still running during polls 0 to 5 and is first seen complete, without an alignment
  job, on poll 6, the loop returns on that very poll: seven polls in all, none of them
  after the completion was observed.
\<close>

theorem late_completion_returns_at_once:
  "pollUntilComplete lateScript noOptions = (Inr doneNoAlign, \<lparr>polls = 7, slept = 30000\<rparr>)
   \<and> lateScript 5 = Inr stillProcessing \<and> \<not> synthComplete stillProcessing
   \<and> lateScript 6 = Inr doneNoAlign \<and> synthComplete doneNoAlign"
  by (simp add: pollUntilComplete_def noOptions_def pollLoop.simps pollStep_def synthComplete_def
      alignComplete_def shouldWaitForAlignment_def doneNoAlign_def lateScript_def
      stillProcessing_def)

text \<open>
  When synthesis is complete from the first poll on, the same exit gives the six further
  polls that the comments in the source describe.
\<close>

lemma completed_from_start_returns_on_seventh_poll:
  "pollUntilComplete (\<lambda>n. Inr doneNoAlign) noOptions =
     (Inr doneNoAlign, \<lparr>polls = 7, slept = 30000\<rparr>)"
  by (simp add: pollUntilComplete_def noOptions_def pollLoop.simps pollStep_def synthComplete_def
      alignComplete_def shouldWaitForAlignment_def doneNoAlign_def)

section \<open>Properties of \<open>processItem\<close>\<close>

text \<open>
  A run in which synthesis completes and no alignment job is ever linked: the polling
  returns the final status without an error, through the exit for a missing alignment
  job, and the result of the document is nevertheless \<open>error\<close>.
\<close>

theorem unlinked_alignment_sync_error:
  "fst (pollUntilComplete (getProjectStatus unlinked ''p1'') noOptions) = Inr doneNoAlign
   \<and> alignmentJob doneNoAlign = None
   \<and> pollStep doneNoAlign 6 = Some (Inr doneNoAlign)
   \<and> res_status (fst (processItem unlinked enUS post emptyMap False False)) = error"
proof -
  have p: "pollUntilComplete (getProjectStatus unlinked ''p1'') noOptions =
     (Inr doneNoAlign, \<lparr>polls = 7, slept = 30000\<rparr>)"
    using completed_from_start_returns_on_seventh_poll by (simp add: unlinked_def)
  have a: "alignmentJob doneNoAlign = None" by (simp add: doneNoAlign_def)
  have s: "pollStep doneNoAlign 6 = Some (Inr doneNoAlign)"
    by (simp add: pollStep_def synthComplete_def alignComplete_def shouldWaitForAlignment_def
        doneNoAlign_def)
  have b: "buildSpeechDocument unlinked post = Inr \<lparr>doc_slug = ''hello'', doc_text = ''Hello world.'',
              doc_hash = ''h1'', doc_source = ''hello.md''\<rparr>"
    "synthesize unlinked n t c = Inr ''p1''"  for n t c
    by (simp_all add: unlinked_def post_def)
  have "res_status (fst (processItem unlinked enUS post emptyMap False False)) = error"
    by (simp add: processItem_def b p a getAudioEntry_def emptyMap_def hasChanged_def caught_def)
  with p a s show ?thesis by simp
qed

text \<open>
  C2, as the code has it. When the item is due for synthesis (not skipped as unchanged,
  no dry run), the speech document is built, the job is submitted, and the polling returns
  a final status without an alignment job, then \<open>processItem\<close> finds no alignment URL
  and throws; its catch block turns this into a result with status \<open>error\<close> and the
  message \<open>No alignment URL returned\<close>, and the audio map is left as it was.
\<close>

theorem unlinked_alignment_is_reported_as_error:
  assumes built: "buildSpeechDocument W item = Inr doc"
    and due: "force \<or> getAudioEntry audioMap (slug item) = None
              \<or> hasChanged (map_option contentHash (getAudioEntry audioMap (slug item))) (doc_hash doc)"
    and submitted: "synthesize W (''astro-'' @ slug item) (doc_text doc) config = Inr pu"
    and polled: "fst (pollUntilComplete (getProjectStatus W pu) noOptions) = Inr finalStatus"
    and unlinked: "alignmentJob finalStatus = None"
  shows "processItem W config item audioMap force False =
           (\<lparr>res_slug = slug item, res_status = error, res_projectUuid = None,
             res_error = Some ''No alignment URL returned''\<rparr>, audioMap)"
  using assms by (auto simp: processItem_def Let_def caught_def)

theorem unlinked_alignment_is_reported_as_error_witness:
  "fst (pollUntilComplete (getProjectStatus unlinked ''p1'') noOptions) = Inr doneNoAlign
   \<and> processItem unlinked enUS post emptyMap False False =
       (\<lparr>res_slug = ''hello'', res_status = error, res_projectUuid = None,
         res_error = Some ''No alignment URL returned''\<rparr>, emptyMap)"
proof -
  have p: "fst (pollUntilComplete (getProjectStatus unlinked ''p1'') noOptions) = Inr doneNoAlign"
    by (simp add: pollUntilComplete_def noOptions_def pollLoop.simps pollStep_def synthComplete_def
      alignComplete_def shouldWaitForAlignment_def doneNoAlign_def unlinked_def)
  have a: "alignmentJob doneNoAlign = None" by (simp add: doneNoAlign_def)
  have b: "buildSpeechDocument unlinked post = Inr \<lparr>doc_slug = ''hello'', doc_text = ''Hello world.'',
              doc_hash = ''h1'', doc_source = ''hello.md''\<rparr>"
    by (simp add: unlinked_def post_def)
  have d: "False \<or> getAudioEntry emptyMap (slug post) = None
     \<or> hasChanged (map_option contentHash (getAudioEntry emptyMap (slug post)))
          (doc_hash \<lparr>doc_slug = ''hello'', doc_text = ''Hello world.'',
              doc_hash = ''h1'', doc_source = ''hello.md''\<rparr>)"
    by (simp add: getAudioEntry_def emptyMap_def)
  have s: "synthesize unlinked (''astro-'' @ slug post)
             (doc_text \<lparr>doc_slug = ''hello'', doc_text = ''Hello world.'',
              doc_hash = ''h1'', doc_source = ''hello.md''\<rparr>) enUS = Inr ''p1''"
    by (simp add: unlinked_def)
  have "processItem unlinked enUS post emptyMap False False =
       (\<lparr>res_slug = slug post, res_status = error, res_projectUuid = None,
         res_error = Some ''No alignment URL returned''\<rparr>, emptyMap)"
    by (rule unlinked_alignment_is_reported_as_error [OF b d s p a])
  with p show ?thesis by (simp add: post_def)
qed

section \<open>Properties of the matcher\<close>

text \<open>The equations that evaluate the matcher on a concrete input.\<close>

lemmas evals = findMatch_def maxLookahead_def searchFrom.simps normalizeWord_def trim_def
  isWhiteSpace_def ascii_def str_def theCatSat_def matchToken_def wordSpan_def
  execWordPattern_def isWordChar_def scanWords.simps processTextNode_def mergeNodes_def digit3_def

subsection \<open>Reconstruction of the text\<close>

lemma mergeStep_text:
  "concat (map nodeText (mergeStep acc n)) = concat (map nodeText acc) @ nodeText n"
proof (cases n)
  case (Text v)
  show ?thesis
  proof (cases "acc = []")
    case True
    with Text show ?thesis by simp
  next
    case False
    then have split: "acc = butlast acc @ [last acc]" by simp
    show ?thesis
    proof (cases "last acc")
      case (Text lv)
      have "concat (map nodeText acc) = concat (map nodeText (butlast acc)) @ lv"
        by (subst split) (simp add: Text)
      with False Text \<open>n = Text v\<close> show ?thesis by simp
    qed (use False Text in simp_all)
  qed
qed simp_all

lemma foldl_mergeStep_text:
  "concat (map nodeText (foldl mergeStep acc ns)) =
   concat (map nodeText acc) @ concat (map nodeText ns)"
  by (induction ns arbitrary: acc) (simp_all add: mergeStep_text)

lemma mergeNodes_text: "concat (map nodeText (mergeNodes ns)) = concat (map nodeText ns)"
  by (simp add: mergeNodes_def foldl_mergeStep_text)

lemma matchToken_text: "nodeText (fst (matchToken E words cp w k)) = w"
  by (simp add: matchToken_def wordSpan_def split: option.splits)

lemma execWordPattern_Some:
  "execWordPattern E rest = Some (b, w, a) \<Longrightarrow> rest = b @ w @ a"
proof -
  assume ex: "execWordPattern E rest = Some (b, w, a)"
  then obtain c cs where d: "dropWhile (\<lambda>c. \<not> isWordChar E c) rest = c # cs"
    and b: "b = takeWhile (\<lambda>c. \<not> isWordChar E c) rest"
    and w: "w = c # takeWhile (isWordChar E) cs"
    and a: "a = dropWhile (isWordChar E) cs"
    by (auto simp: execWordPattern_def split: list.splits)
  have "rest = b @ c # cs"
    using takeWhile_dropWhile_id [of "\<lambda>c. \<not> isWordChar E c" rest] b d by simp
  also have "c # cs = w @ a"
    using w a by simp
  finally show ?thesis .
qed

lemma scanWords_text:
  "concat (map nodeText (fst (scanWords E words cp rest k ns))) =
   concat (map nodeText ns) @ rest"
proof (induction E words cp rest k ns rule: scanWords.induct)
  case (1 E words cp rest k ns)
  show ?case
  proof (cases "execWordPattern E rest")
    case None
    then show ?thesis by (subst scanWords.simps) simp
  next
    case (Some t)
    obtain b w a where t: "t = (b, w, a)" by (cases t) auto
    obtain node k' where m: "matchToken E words cp w k = (node, k')"
      by (cases "matchToken E words cp w k") auto
    have node: "nodeText node = w"
      using matchToken_text [of E words cp w k] m by simp
    have rest: "rest = b @ w @ a"
      using Some t by (simp add: execWordPattern_Some)
    have "concat (map nodeText (fst (scanWords E words cp rest k ns))) =
          concat (map nodeText (fst (scanWords E words cp a k'
             ((if b \<noteq> [] then ns @ [Text b] else ns) @ [node]))))"
      using Some t m by (subst scanWords.simps) simp
    also have "\<dots> = concat (map nodeText ((if b \<noteq> [] then ns @ [Text b] else ns) @ [node])) @ a"
      using "1.IH" [OF Some t [symmetric] refl m [symmetric]] .
    also have "\<dots> = concat (map nodeText ns) @ rest"
      using node rest by simp
    finally show ?thesis .
  qed
qed

text \<open>
  C3. For every text, track and starting index, the texts of the nodes returned by
  \<open>processTextNode\<close> (the values of its text nodes and the text children of its spans),
  concatenated in order, are the input text.
\<close>

theorem processTextNode_reconstructs:
  "concat (map nodeText (nodes (processTextNode E text words startIndex classPrefix))) = text"
proof -
  obtain ns k where s: "scanWords E words classPrefix text startIndex [] = (ns, k)"
    by (cases "scanWords E words classPrefix text startIndex []") auto
  have "concat (map nodeText ns) = text"
    using scanWords_text [of E words classPrefix "text" startIndex "[]"] s by simp
  then show ?thesis
    by (simp add: processTextNode_def s mergeNodes_text)
qed

theorem processTextNode_reconstructs_witness:
  "concat (map nodeText
     (nodes (processTextNode ascii (str ''The cat sat.'') theCatSat 0 (str ''vocasync''))))
     = str ''The cat sat.''
   \<and> map nodeText
        (nodes (processTextNode ascii (str ''The cat sat.'') theCatSat 0 (str ''vocasync'')))
     = [str ''The'', str '' '', str ''cat'', str '' '', str ''sat'', str ''.'']
   \<and> nextWordIndex (processTextNode ascii (str ''The cat sat.'') theCatSat 0 (str ''vocasync''))
     = 3"
proof -
  have "map nodeText
        (nodes (processTextNode ascii (str ''The cat sat.'') theCatSat 0 (str ''vocasync'')))
     = [str ''The'', str '' '', str ''cat'', str '' '', str ''sat'', str ''.'']"
    "nextWordIndex (processTextNode ascii (str ''The cat sat.'') theCatSat 0 (str ''vocasync''))
     = 3"
    by (simp_all add: evals)
  then show ?thesis
    using processTextNode_reconstructs
      [of ascii "str ''The cat sat.''" theCatSat 0 "str ''vocasync''"]
    by simp
qed

subsection \<open>The search window\<close>

lemma searchFrom_Some:
  "searchFrom E words nw bound i = Some j \<Longrightarrow>
   i \<le> j \<and> j < bound \<and> normalizeWord E (word (words ! j)) = nw \<and>
   (\<forall>l. i \<le> l \<and> l < j \<longrightarrow> normalizeWord E (word (words ! l)) \<noteq> nw)"
proof (induction E words nw bound i rule: searchFrom.induct)
  case (1 E words nw bound i)
  from "1.prems" have lt: "i < bound"
    by (subst (asm) searchFrom.simps) (simp split: if_splits)
  show ?case
  proof (cases "normalizeWord E (word (words ! i)) = nw")
    case True
    with "1.prems" lt have "j = i" by (subst (asm) searchFrom.simps) simp
    with True lt show ?thesis by auto
  next
    case False
    with "1.prems" lt have "searchFrom E words nw bound (i + 1) = Some j"
      by (subst (asm) searchFrom.simps) simp
    from "1.IH" [OF lt False this]
    have ih: "i + 1 \<le> j" "j < bound" "normalizeWord E (word (words ! j)) = nw"
      "\<forall>l. i + 1 \<le> l \<and> l < j \<longrightarrow> normalizeWord E (word (words ! l)) \<noteq> nw"
      by auto
    have "normalizeWord E (word (words ! l)) \<noteq> nw" if "i \<le> l" "l < j" for l
    proof (cases "l = i")
      case True with False show ?thesis by simp
    next
      case False with that ih(4) show ?thesis by auto
    qed
    with ih show ?thesis by auto
  qed
qed

lemma searchFrom_None:
  "searchFrom E words nw bound i = None \<Longrightarrow>
   \<forall>l. i \<le> l \<and> l < bound \<longrightarrow> normalizeWord E (word (words ! l)) \<noteq> nw"
proof (induction E words nw bound i rule: searchFrom.induct)
  case (1 E words nw bound i)
  show ?case
  proof (cases "i < bound")
    case False
    then show ?thesis by auto
  next
    case True
    from "1.prems" True have ne: "normalizeWord E (word (words ! i)) \<noteq> nw"
      by (subst (asm) searchFrom.simps) (simp split: if_splits)
    with "1.prems" True have "searchFrom E words nw bound (i + 1) = None"
      by (subst (asm) searchFrom.simps) simp
    from "1.IH" [OF True ne this]
    have ih: "\<forall>l. i + 1 \<le> l \<and> l < bound \<longrightarrow> normalizeWord E (word (words ! l)) \<noteq> nw" .
    show ?thesis
    proof (intro allI impI)
      fix l assume l: "i \<le> l \<and> l < bound"
      show "normalizeWord E (word (words ! l)) \<noteq> nw"
      proof (cases "l = i")
        case True with ne show ?thesis by simp
      next
        case False with l ih show ?thesis by auto
      qed
    qed
  qed
qed

lemma findMatch_Some_iff:
  "findMatch E words w k = Some i \<longleftrightarrow>
     k \<le> i \<and> i < k + 10 \<and> i < length words \<and>
     normalizeWord E (word (words ! i)) = normalizeWord E w \<and>
     (\<forall>j. k \<le> j \<and> j < i \<longrightarrow> normalizeWord E (word (words ! j)) \<noteq> normalizeWord E w)"
  (is "?L \<longleftrightarrow> ?R")
proof
  assume ?L
  then show ?R
    using searchFrom_Some [of E words "normalizeWord E w" "min (k + 10) (length words)" k i]
    by (simp add: findMatch_def maxLookahead_def)
next
  assume r: ?R
  show ?L
  proof (cases "findMatch E words w k")
    case None
    then have "\<forall>l. k \<le> l \<and> l < min (k + 10) (length words) \<longrightarrow>
        normalizeWord E (word (words ! l)) \<noteq> normalizeWord E w"
      using searchFrom_None [of E words "normalizeWord E w" "min (k + 10) (length words)" k]
      by (simp add: findMatch_def maxLookahead_def)
    with r show ?thesis by auto
  next
    case (Some i')
    then have s: "k \<le> i'" "i' < k + 10" "i' < length words"
      "normalizeWord E (word (words ! i')) = normalizeWord E w"
      "\<forall>j. k \<le> j \<and> j < i' \<longrightarrow> normalizeWord E (word (words ! j)) \<noteq> normalizeWord E w"
      using searchFrom_Some [of E words "normalizeWord E w" "min (k + 10) (length words)" k i']
      by (simp_all add: findMatch_def maxLookahead_def)
    have "i' = i"
    proof (rule ccontr)
      assume "i' \<noteq> i"
      then consider "i' < i" | "i < i'" by linarith
      then show False
      proof cases
        case 1 with r s show False by auto
      next
        case 2 with r s show False by auto
      qed
    qed
    with Some show ?thesis by simp
  qed
qed

lemma findMatch_None_iff:
  "findMatch E words w k = None \<longleftrightarrow>
     (\<forall>j. k \<le> j \<and> j < k + 10 \<and> j < length words \<longrightarrow>
          normalizeWord E (word (words ! j)) \<noteq> normalizeWord E w)"
  (is "?L \<longleftrightarrow> ?R")
proof
  assume ?L
  then show ?R
    using searchFrom_None [of E words "normalizeWord E w" "min (k + 10) (length words)" k]
    by (simp add: findMatch_def maxLookahead_def)
next
  assume r: ?R
  show ?L
  proof (cases "findMatch E words w k")
    case None then show ?thesis .
  next
    case (Some i)
    then have "k \<le> i \<and> i < k + 10 \<and> i < length words \<and>
        normalizeWord E (word (words ! i)) = normalizeWord E w"
      by (simp add: findMatch_Some_iff)
    with r show ?thesis by auto
  qed
qed

lemma trim_no_space:
  assumes a: "\<forall>c\<in>set s. \<not> isWhiteSpace c"
  shows "trim s = s"
proof (cases "s = []")
  case True
  then show ?thesis by (simp add: trim_def)
next
  case False
  have "\<not> isWhiteSpace (hd s)" using a False by simp
  then have 1: "dropWhile isWhiteSpace s = s"
    by (simp add: dropWhile_eq_self_iff)
  have "\<not> isWhiteSpace (last s)" using a False by simp
  then have 2: "dropWhile isWhiteSpace (rev s) = rev s"
    using False by (simp add: dropWhile_eq_self_iff hd_rev)
  show ?thesis by (simp add: trim_def 1 2)
qed

lemma normalizeWord_strips:
  "\<forall>c. isWhiteSpace c \<longrightarrow> \<not> isLetterOrNumber E c \<Longrightarrow>
   normalizeWord E w = filter (isLetterOrNumber E) (toLowerCase E w)"
  unfolding normalizeWord_def by (rule trim_no_space) auto

text \<open>
  C5. A token at word index \<open>k\<close> is matched with index \<open>i\<close> exactly when \<open>i\<close> is the first
  index with \<open>k \<le> i < k + 10\<close>, inside the track, whose entry has the same normalisation as
  the token; the token then becomes a span for entry \<open>i\<close> and the index moves to \<open>i + 1\<close>.
  An entry ten or more positions ahead of \<open>k\<close> is never the match, and when no entry of
  the window has the token's normalisation the token stays plain text and the index stays
  \<open>k\<close>. The normalisation is the lower-cased word with every character that is not a
  letter or number removed (the final \<open>trim\<close> finds nothing to remove, white space being
  neither).
\<close>

theorem lookahead_first_match:
  "(findMatch E words w k = Some i \<longleftrightarrow>
      k \<le> i \<and> i < k + 10 \<and> i < length words \<and>
      normalizeWord E (word (words ! i)) = normalizeWord E w \<and>
      (\<forall>j. k \<le> j \<and> j < i \<longrightarrow> normalizeWord E (word (words ! j)) \<noteq> normalizeWord E w))
   \<and> (findMatch E words w k = Some i \<longrightarrow>
        matchToken E words cp w k = (wordSpan E cp w i (words ! i), i + 1))
   \<and> (k + 10 \<le> i \<longrightarrow> findMatch E words w k \<noteq> Some i)
   \<and> ((\<forall>j. k \<le> j \<and> j < k + 10 \<and> j < length words \<longrightarrow>
           normalizeWord E (word (words ! j)) \<noteq> normalizeWord E w) \<longrightarrow>
        matchToken E words cp w k = (Text w, k))
   \<and> ((\<forall>c. isWhiteSpace c \<longrightarrow> \<not> isLetterOrNumber E c) \<longrightarrow>
        normalizeWord E w = filter (isLetterOrNumber E) (toLowerCase E w))"
proof (intro conjI impI)
  show "findMatch E words w k = Some i \<longleftrightarrow>
      k \<le> i \<and> i < k + 10 \<and> i < length words \<and>
      normalizeWord E (word (words ! i)) = normalizeWord E w \<and>
      (\<forall>j. k \<le> j \<and> j < i \<longrightarrow> normalizeWord E (word (words ! j)) \<noteq> normalizeWord E w)"
    by (rule findMatch_Some_iff)
next
  assume "findMatch E words w k = Some i"
  then show "matchToken E words cp w k = (wordSpan E cp w i (words ! i), i + 1)"
    by (simp add: matchToken_def)
next
  assume "k + 10 \<le> i"
  then show "findMatch E words w k \<noteq> Some i"
    by (simp add: findMatch_Some_iff)
next
  assume "\<forall>j. k \<le> j \<and> j < k + 10 \<and> j < length words \<longrightarrow>
           normalizeWord E (word (words ! j)) \<noteq> normalizeWord E w"
  then have "findMatch E words w k = None"
    by (simp add: findMatch_None_iff)
  then show "matchToken E words cp w k = (Text w, k)"
    by (simp add: matchToken_def)
next
  assume "\<forall>c. isWhiteSpace c \<longrightarrow> \<not> isLetterOrNumber E c"
  then show "normalizeWord E w = filter (isLetterOrNumber E) (toLowerCase E w)"
    by (rule normalizeWord_strips)
qed

lemma ascii_no_space: "\<forall>c. isWhiteSpace c \<longrightarrow> \<not> isLetterOrNumber ascii c"
  by (auto simp: isWhiteSpace_def ascii_def)

lemma longTrack_window:
  "\<forall>j. 0 \<le> j \<and> j < 0 + 10 \<and> j < length longTrack \<longrightarrow>
       normalizeWord ascii (word (longTrack ! j)) \<noteq> normalizeWord ascii (str ''Cat'')"
proof (intro allI impI)
  fix j :: nat
  assume "0 \<le> j \<and> j < 0 + 10 \<and> j < length longTrack"
  then have "j \<in> {0, 1, 2, 3, 4, 5, 6, 7, 8, 9}" by auto
  then show "normalizeWord ascii (word (longTrack ! j)) \<noteq> normalizeWord ascii (str ''Cat'')"
    by (auto simp: longTrack_def evals)
qed


lemma longTrack_window_1:
  "\<forall>j. 1 \<le> j \<and> j < 10 \<longrightarrow>
       normalizeWord ascii (word (longTrack ! j)) \<noteq> normalizeWord ascii (str ''Cat'')"
proof (intro allI impI)
  fix j :: nat
  assume "1 \<le> j \<and> j < 10"
  then have "j \<in> {1, 2, 3, 4, 5, 6, 7, 8, 9}" by auto
  then show "normalizeWord ascii (word (longTrack ! j)) \<noteq> normalizeWord ascii (str ''Cat'')"
    by (auto simp: longTrack_def evals)
qed

lemma longTrack_10:
  "normalizeWord ascii (word (longTrack ! 10)) = normalizeWord ascii (str ''Cat'')"
  "length longTrack = 11"
  by (simp_all add: longTrack_def evals)

theorem lookahead_first_match_witness:
  "normalizeWord ascii (word (longTrack ! 10)) = normalizeWord ascii (str ''Cat'')
   \<and> matchToken ascii longTrack (str ''vocasync'') (str ''Cat'') 0 = (Text (str ''Cat''), 0)
   \<and> findMatch ascii longTrack (str ''Cat'') 0 \<noteq> Some 10
   \<and> findMatch ascii longTrack (str ''Cat'') 1 = Some 10
   \<and> matchToken ascii longTrack (str ''vocasync'') (str ''Cat'') 1 =
       (wordSpan ascii (str ''vocasync'') (str ''Cat'') 10 (longTrack ! 10), 11)
   \<and> normalizeWord ascii (str ''Cat'') =
       filter (isLetterOrNumber ascii) (toLowerCase ascii (str ''Cat''))"
proof -
  note far = lookahead_first_match [of ascii longTrack "str ''Cat''" 0 10 "str ''vocasync''"]
  note near = lookahead_first_match [of ascii longTrack "str ''Cat''" 1 10 "str ''vocasync''"]
  have a: "matchToken ascii longTrack (str ''vocasync'') (str ''Cat'') 0 = (Text (str ''Cat''), 0)"
    using far longTrack_window by blast
  have b: "findMatch ascii longTrack (str ''Cat'') 0 \<noteq> Some 10"
    using far by simp
  have c: "findMatch ascii longTrack (str ''Cat'') 1 = Some 10"
    using near longTrack_window_1 longTrack_10 by simp
  have d: "matchToken ascii longTrack (str ''vocasync'') (str ''Cat'') 1 =
       (wordSpan ascii (str ''vocasync'') (str ''Cat'') 10 (longTrack ! 10), 11)"
    using near c by simp
  have e: "normalizeWord ascii (str ''Cat'') =
       filter (isLetterOrNumber ascii) (toLowerCase ascii (str ''Cat''))"
    using far ascii_no_space by blast
  from a b c d e longTrack_10(1) show ?thesis by blast
qed

subsection \<open>The word index\<close>

lemma matchToken_cursor:
  "k \<le> snd (matchToken E words cp w k) \<and> snd (matchToken E words cp w k) \<le> max k (length words)"
proof (cases "findMatch E words w k")
  case None
  then show ?thesis by (simp add: matchToken_def)
next
  case (Some i)
  then have "k \<le> i \<and> i < length words" by (simp add: findMatch_Some_iff)
  with Some show ?thesis by (simp add: matchToken_def)
qed

lemma scanWords_cursor:
  "k \<le> snd (scanWords E words cp rest k ns) \<and>
   snd (scanWords E words cp rest k ns) \<le> max k (length words)"
proof (induction E words cp rest k ns rule: scanWords.induct)
  case (1 E words cp rest k ns)
  show ?case
  proof (cases "execWordPattern E rest")
    case None
    then show ?thesis by (subst (1 2) scanWords.simps) simp
  next
    case (Some t)
    obtain b w a where t: "t = (b, w, a)" by (cases t) auto
    obtain node k' where m: "matchToken E words cp w k = (node, k')"
      by (cases "matchToken E words cp w k") auto
    have k': "k \<le> k'" "k' \<le> max k (length words)"
      using matchToken_cursor [of k E words cp w] m by simp_all
    have eq: "scanWords E words cp rest k ns =
          scanWords E words cp a k' ((if b \<noteq> [] then ns @ [Text b] else ns) @ [node])"
      using Some t m by (subst scanWords.simps) simp
    from "1.IH" [OF Some t [symmetric] refl m [symmetric]] k'
    show ?thesis unfolding eq by auto
  qed
qed

lemma processTextNode_cursor:
  "k \<le> nextWordIndex (processTextNode E t words k cp) \<and>
   nextWordIndex (processTextNode E t words k cp) \<le> max k (length words)"
proof -
  obtain ns k' where s: "scanWords E words cp t k [] = (ns, k')"
    by (cases "scanWords E words cp t k []") auto
  then show ?thesis
    using scanWords_cursor [of k E words cp t "[]"] by (simp add: processTextNode_def)
qed

lemma threadCursor_facts:
  "sorted (threadCursor E words cp ts k) \<and>
   (\<forall>x\<in>set (threadCursor E words cp ts k). k \<le> x \<and> x \<le> max k (length words))"
proof (induction ts arbitrary: k)
  case Nil
  show ?case by simp
next
  case (Cons t ts)
  let ?k' = "nextWordIndex (processTextNode E t words k cp)"
  have k': "k \<le> ?k'" "?k' \<le> max k (length words)"
    using processTextNode_cursor [of k E t words cp] by simp_all
  from Cons.IH [of ?k'] k' show ?case by (auto simp: max_def split: if_splits)
qed

text \<open>
  C4. Over any sequence of calls that thread one word index, the index never decreases,
  and when it starts within the track (as the plugin's does, at 0) it never exceeds the
  length of the track. A token that finds no match in its window leaves the index as it
  was.
\<close>

theorem cursor_monotone_and_bounded:
  "sorted (threadCursor E words cp ts k)
   \<and> (k \<le> length words \<longrightarrow> (\<forall>x\<in>set (threadCursor E words cp ts k). x \<le> length words))
   \<and> (findMatch E words w k = None \<longrightarrow> snd (matchToken E words cp w k) = k)"
proof (intro conjI impI)
  show "sorted (threadCursor E words cp ts k)"
    using threadCursor_facts [of E words cp ts k] by simp
next
  assume "k \<le> length words"
  then show "\<forall>x\<in>set (threadCursor E words cp ts k). x \<le> length words"
    using threadCursor_facts [of E words cp ts k] by (auto simp: max_def)
next
  assume "findMatch E words w k = None"
  then show "snd (matchToken E words cp w k) = k"
    by (simp add: matchToken_def)
qed

theorem cursor_monotone_and_bounded_witness:
  "threadCursor ascii theCatSat (str ''vocasync'') [str ''The cat'', str ''dog'', str '' sat.''] 0
     = [0, 2, 2, 3]
   \<and> sorted [0, 2, 2, 3 :: nat] \<and> list_all (\<lambda>x. x \<le> length theCatSat) [0, 2, 2, 3]
   \<and> findMatch ascii theCatSat (str ''dog'') 2 = None
   \<and> snd (matchToken ascii theCatSat (str ''vocasync'') (str ''dog'') 2) = 2"
proof -
  have t: "threadCursor ascii theCatSat (str ''vocasync'')
             [str ''The cat'', str ''dog'', str '' sat.''] 0 = [0, 2, 2, 3]"
    by (simp add: evals)
  have b: "0 \<le> length theCatSat" by simp
  have f: "findMatch ascii theCatSat (str ''dog'') 2 = None"
    by (simp add: evals)
  show ?thesis
    using cursor_monotone_and_bounded [of ascii theCatSat "str ''vocasync''"
        "[str ''The cat'', str ''dog'', str '' sat.'']" 0 "str ''dog''"]
        cursor_monotone_and_bounded [of ascii theCatSat "str ''vocasync''"
        "[str ''The cat'', str ''dog'', str '' sat.'']" 2 "str ''dog''"]
        b f
    unfolding t by (simp add: list_all_iff)
qed

section \<open>Properties of the visitor\<close>

lemma execWordPattern_Nil: "execWordPattern E [] = None"
  by (simp add: execWordPattern_def)

lemma execWordPattern_single:
  assumes "v \<noteq> []" and "\<forall>c\<in>set v. isWordChar E c"
  shows "execWordPattern E v = Some ([], v, [])"
proof -
  obtain c cs where v: "v = c # cs" using assms(1) by (cases v) auto
  have c: "isWordChar E c" and cs: "\<forall>x\<in>set cs. isWordChar E x"
    using assms(2) v by auto
  have "takeWhile (isWordChar E) cs = cs" "dropWhile (isWordChar E) cs = []"
    using cs by simp_all
  then show ?thesis
    using c by (simp add: execWordPattern_def v)
qed

lemma mergeNodes_single: "mergeNodes [n] = [n]"
  by (cases n) (simp_all add: mergeNodes_def)

lemma processTextNode_single:
  assumes "v \<noteq> []" and "\<forall>c\<in>set v. isWordChar E c"
  shows "processTextNode E v words k cp =
         \<lparr>nodes = [fst (matchToken E words cp v k)],
          nextWordIndex = snd (matchToken E words cp v k)\<rparr>"
proof -
  obtain node k' where m: "matchToken E words cp v k = (node, k')"
    by (cases "matchToken E words cp v k") auto
  have "scanWords E words cp v k [] = scanWords E words cp [] k' [node]"
    using execWordPattern_single [OF assms] m by (subst scanWords.simps) simp
  also have "\<dots> = ([node], k')"
    by (subst scanWords.simps) (simp add: execWordPattern_Nil)
  finally show ?thesis
    by (simp add: processTextNode_def m mergeNodes_single)
qed

text \<open>
  C9. When \<open>processTextNode\<close> returns at most one node, the visitor leaves the parent's
  children and the shared word index as they were. A text that is one token and nothing
  else is such a case, also when the token matches an entry \<open>i\<close> of the window and
  \<open>processTextNode\<close> itself reports the next index \<open>i + 1\<close>.
\<close>

theorem visitor_keeps_single_node:
  "(length (nodes (processTextNode E v words k cp)) \<le> 1 \<longrightarrow>
      visitor E words cp ancestors v nodeIndex (k, kids) = (k, kids))
   \<and> (v \<noteq> [] \<and> (\<forall>c\<in>set v. isWordChar E c) \<longrightarrow>
        visitor E words cp ancestors v nodeIndex (k, kids) = (k, kids)
        \<and> (\<forall>i. findMatch E words v k = Some i \<longrightarrow>
              processTextNode E v words k cp =
                \<lparr>nodes = [wordSpan E cp v i (words ! i)], nextWordIndex = i + 1\<rparr>))"
proof (intro conjI impI allI)
  assume "length (nodes (processTextNode E v words k cp)) \<le> 1"
  then have "length (nodes (processTextNode E v words k cp)) = 0 \<or>
             length (nodes (processTextNode E v words k cp)) = 1"
    by linarith
  then show "visitor E words cp ancestors v nodeIndex (k, kids) = (k, kids)"
    by (simp add: visitor_def Let_def)
next
  assume a: "v \<noteq> [] \<and> (\<forall>c\<in>set v. isWordChar E c)"
  then have "length (nodes (processTextNode E v words k cp)) = 1"
    by (simp add: processTextNode_single)
  then show "visitor E words cp ancestors v nodeIndex (k, kids) = (k, kids)"
    by (simp add: visitor_def Let_def)
next
  fix i
  assume a: "v \<noteq> [] \<and> (\<forall>c\<in>set v. isWordChar E c)"
    and f: "findMatch E words v k = Some i"
  from a have "processTextNode E v words k cp =
         \<lparr>nodes = [fst (matchToken E words cp v k)],
          nextWordIndex = snd (matchToken E words cp v k)\<rparr>"
    by (simp add: processTextNode_single)
  with f show "processTextNode E v words k cp =
                \<lparr>nodes = [wordSpan E cp v i (words ! i)], nextWordIndex = i + 1\<rparr>"
    by (simp add: matchToken_def)
qed

theorem visitor_keeps_single_node_witness:
  "str ''cat'' \<noteq> [] \<and> list_all (isWordChar ascii) (str ''cat'')
   \<and> findMatch ascii theCatSat (str ''cat'') 0 = Some 1
   \<and> nextWordIndex (processTextNode ascii (str ''cat'') theCatSat 0 (str ''vocasync'')) = 2
   \<and> length (nodes (processTextNode ascii (str ''cat'') theCatSat 0 (str ''vocasync''))) \<le> 1
   \<and> visitor ascii theCatSat (str ''vocasync'') [Root [], Element (str ''p'') [] []]
        (str ''cat'') (Some 0) (0, [Text (str ''cat'')]) = (0, [Text (str ''cat'')])"
proof -
  have h: "str ''cat'' \<noteq> [] \<and> (\<forall>c\<in>set (str ''cat''). isWordChar ascii c)"
    by (simp add: str_def isWordChar_def ascii_def)
  have f: "findMatch ascii theCatSat (str ''cat'') 0 = Some 1"
    by (simp add: evals)
  show ?thesis
    using visitor_keeps_single_node [of ascii "str ''cat''" theCatSat 0 "str ''vocasync''"
        "[Root [], Element (str ''p'') [] []]" "Some 0" "[Text (str ''cat'')]"] h f
    by (simp add: list_all_iff)
qed

lemma isInNonTextualElement_iff:
  "isInNonTextualElement ancestors \<longleftrightarrow>
   (\<exists>a\<in>set ancestors. hasNonTextualTag a \<or> hasNonTextualClass a)"
  by (induction ancestors) auto

text \<open>
  C10. Under an ancestor whose tag is one of \<open>code\<close>, \<open>pre\<close>, \<open>script\<close>, \<open>style\<close>, \<open>svg\<close>,
  \<open>math\<close>, or whose class list contains one of \<open>katex\<close>, \<open>katex-mathml\<close>, \<open>katex-html\<close>,
  \<open>mjx-container\<close> (or whose \<open>className\<close> is one of these as a single string), the visitor
  leaves the parent's children and the shared word index as they were, whatever the text.
\<close>

theorem visitor_skips_non_textual:
  assumes "Element t props kids' \<in> set ancestors"
    and "t \<in> {str ''code'', str ''pre'', str ''script'', str ''style'', str ''svg'', str ''math''}
         \<or> (\<exists>cls c. map_of props ''className'' = Some (Array cls) \<and> PStr c \<in> set cls \<and>
               c \<in> {str ''katex'', str ''katex-mathml'', str ''katex-html'', str ''mjx-container''})
         \<or> (\<exists>c. map_of props ''className'' = Some (Single (PStr c)) \<and>
               c \<in> {str ''katex'', str ''katex-mathml'', str ''katex-html'', str ''mjx-container''})"
  shows "visitor E words cp ancestors v nodeIndex (k, kids) = (k, kids)"
proof -
  have "hasNonTextualTag (Element t props kids') \<or> hasNonTextualClass (Element t props kids')"
    using assms(2)
  proof (elim disjE)
    assume "t \<in> {str ''code'', str ''pre'', str ''script'', str ''style'', str ''svg'', str ''math''}"
    then have "hasNonTextualTag (Element t props kids')"
      by (simp add: nonTextualTags_def)
    then show ?thesis ..
  next
    assume "\<exists>cls c. map_of props ''className'' = Some (Array cls) \<and> PStr c \<in> set cls \<and>
               c \<in> {str ''katex'', str ''katex-mathml'', str ''katex-html'', str ''mjx-container''}"
    then obtain cls c where p: "map_of props ''className'' = Some (Array cls)"
      and c: "PStr c \<in> set cls"
      and k: "c \<in> {str ''katex'', str ''katex-mathml'', str ''katex-html'', str ''mjx-container''}"
      by blast
    from k have "isNonTextualClass (PStr c)" by (simp add: nonTextualClasses_def)
    with c have "list_ex isNonTextualClass cls" unfolding list_ex_iff by blast
    with p have "hasNonTextualClass (Element t props kids')" by simp
    then show ?thesis ..
  next
    assume "\<exists>c. map_of props ''className'' = Some (Single (PStr c)) \<and>
               c \<in> {str ''katex'', str ''katex-mathml'', str ''katex-html'', str ''mjx-container''}"
    then obtain c where p: "map_of props ''className'' = Some (Single (PStr c))"
      and k: "c \<in> {str ''katex'', str ''katex-mathml'', str ''katex-html'', str ''mjx-container''}"
      by blast
    from k have "isNonTextualClass (PStr c)" by (simp add: nonTextualClasses_def)
    moreover from k have "c \<noteq> []" by (auto simp: str_def)
    ultimately have "hasNonTextualClass (Element t props kids')" using p by simp
    then show ?thesis ..
  qed
  with assms(1) have "isInNonTextualElement ancestors"
    unfolding isInNonTextualElement_iff by blast
  then show ?thesis by (simp add: visitor_def)
qed

theorem visitor_skips_non_textual_witness:
  "visitor ascii theCatSat (str ''vocasync'')
     [Root [], Element (str ''pre'') [] [], Element (str ''code'') [] []]
     (str ''the cat'') (Some 0) (0, [Text (str ''the cat'')]) = (0, [Text (str ''the cat'')])
   \<and> visitor ascii theCatSat (str ''vocasync'')
     [Root [], Element (str ''span'') [(''className'', Array [PStr (str ''katex'')])] []]
     (str ''the cat'') (Some 0) (0, [Text (str ''the cat'')]) = (0, [Text (str ''the cat'')])
   \<and> nextWordIndex (processTextNode ascii (str ''the cat'') theCatSat 0 (str ''vocasync'')) = 2"
proof -
  have 1: "visitor ascii theCatSat (str ''vocasync'')
     [Root [], Element (str ''pre'') [] [], Element (str ''code'') [] []]
     (str ''the cat'') (Some 0) (0, [Text (str ''the cat'')]) = (0, [Text (str ''the cat'')])"
    by (rule visitor_skips_non_textual [of "str ''code''" "[]" "[]"]) simp_all
  have 2: "visitor ascii theCatSat (str ''vocasync'')
     [Root [], Element (str ''span'') [(''className'', Array [PStr (str ''katex'')])] []]
     (str ''the cat'') (Some 0) (0, [Text (str ''the cat'')]) = (0, [Text (str ''the cat'')])"
    by (rule visitor_skips_non_textual
          [of "str ''span''" "[(''className'', Array [PStr (str ''katex'')])]" "[]"]) simp_all
  have 3: "nextWordIndex (processTextNode ascii (str ''the cat'') theCatSat 0 (str ''vocasync'')) = 2"
    by (simp add: evals)
  from 1 2 3 show ?thesis by simp
qed

section \<open>Properties of the alignment cache\<close>

lemma fetch_keeps_entry:
  "alignmentCache st s = Some ws \<Longrightarrow>
   alignmentCache (snd (fetchAlignmentSync remote url' s' st)) s = Some ws"
  by (auto simp: fetchAlignmentSync_def Let_def split: option.splits fetched.splits)

lemma afterRequests_keeps_entry:
  "alignmentCache st s = Some ws \<Longrightarrow> alignmentCache (afterRequests remote rs st) s = Some ws"
proof (induction rs arbitrary: st)
  case Nil
  then show ?case by simp
next
  case (Cons r rs)
  obtain url' s' where r: "r = (url', s')" by (cases r) auto
  from Cons.prems have "alignmentCache (snd (fetchAlignmentSync remote url' s' st)) s = Some ws"
    by (rule fetch_keeps_entry)
  then show ?case using Cons.IH r by simp
qed

text \<open>
  A remote that always throws: the first request for a slug fetches and stores nothing,
  and the second request for the same slug fetches again.
\<close>

theorem second_fetch_after_failure:
  "fetchAlignmentSync alwaysThrows ''https://vocasync.io/a'' ''hello'' emptyCache =
     (None, \<lparr>alignmentCache = Map.empty, fetchLog = [''https://vocasync.io/a'']\<rparr>)
   \<and> fetchAlignmentSync alwaysThrows ''https://vocasync.io/a'' ''hello''
       (snd (fetchAlignmentSync alwaysThrows ''https://vocasync.io/a'' ''hello'' emptyCache)) =
     (None, \<lparr>alignmentCache = Map.empty,
             fetchLog = [''https://vocasync.io/a'', ''https://vocasync.io/a'']\<rparr>)"
  by (simp add: fetchAlignmentSync_def alwaysThrows_def emptyCache_def)

text \<open>
  C7, as the code has it. A request for a slug that is not in the cache performs the
  remote fetch. When the fetch delivers a words array, the array is returned and stored,
  and after any further requests a request for that slug returns the stored array
  without a fetch. When the fetch throws or delivers no words array, the request returns
  nothing and the cache is unchanged: only the fetch is logged.
\<close>

theorem cache_stores_words_only:
  "(alignmentCache st s = None \<longrightarrow>
      fetchLog (snd (fetchAlignmentSync remote url s st)) = fetchLog st @ [url])
   \<and> (alignmentCache st s = None \<and> remote (length (fetchLog st)) url = Words ws \<longrightarrow>
        fst (fetchAlignmentSync remote url s st) = Some ws
        \<and> (\<forall>rs url'.
              fetchAlignmentSync remote url' s
                (afterRequests remote rs (snd (fetchAlignmentSync remote url s st))) =
              (Some ws, afterRequests remote rs (snd (fetchAlignmentSync remote url s st)))))
   \<and> (alignmentCache st s = None \<and> (\<forall>ws. remote (length (fetchLog st)) url \<noteq> Words ws) \<longrightarrow>
        fetchAlignmentSync remote url s st = (None, st\<lparr>fetchLog := fetchLog st @ [url]\<rparr>))"
proof (intro conjI impI allI)
  assume "alignmentCache st s = None"
  then show "fetchLog (snd (fetchAlignmentSync remote url s st)) = fetchLog st @ [url]"
    by (simp add: fetchAlignmentSync_def Let_def split: fetched.splits)
next
  assume a: "alignmentCache st s = None \<and> remote (length (fetchLog st)) url = Words ws"
  then show "fst (fetchAlignmentSync remote url s st) = Some ws"
    by (simp add: fetchAlignmentSync_def Let_def)
next
  fix rs url'
  assume a: "alignmentCache st s = None \<and> remote (length (fetchLog st)) url = Words ws"
  let ?st1 = "snd (fetchAlignmentSync remote url s st)"
  have "alignmentCache ?st1 s = Some ws"
    using a by (simp add: fetchAlignmentSync_def Let_def)
  then have "alignmentCache (afterRequests remote rs ?st1) s = Some ws"
    by (rule afterRequests_keeps_entry)
  then show "fetchAlignmentSync remote url' s (afterRequests remote rs ?st1) =
             (Some ws, afterRequests remote rs ?st1)"
    by (simp add: fetchAlignmentSync_def)
next
  assume a: "alignmentCache st s = None \<and> (\<forall>ws. remote (length (fetchLog st)) url \<noteq> Words ws)"
  then show "fetchAlignmentSync remote url s st = (None, st\<lparr>fetchLog := fetchLog st @ [url]\<rparr>)"
    by (cases "remote (length (fetchLog st)) url") (simp_all add: fetchAlignmentSync_def Let_def)
qed

theorem cache_stores_words_only_witness:
  "fetchAlignmentSync succeedsSecond ''u'' ''hello'' emptyCache =
     (None, emptyCache\<lparr>fetchLog := [''u'']\<rparr>)
   \<and> fst (fetchAlignmentSync succeedsSecond ''u'' ''hello'' (emptyCache\<lparr>fetchLog := [''u'']\<rparr>))
       = Some theCatSat
   \<and> fetchLog (snd (fetchAlignmentSync succeedsSecond ''u'' ''hello''
        (emptyCache\<lparr>fetchLog := [''u'']\<rparr>))) = [''u'', ''u'']
   \<and> fetchLog (snd (fetchAlignmentSync succeedsSecond ''u'' ''hello''
        (afterRequests succeedsSecond [(''v'', ''other'')]
          (snd (fetchAlignmentSync succeedsSecond ''u'' ''hello''
             (emptyCache\<lparr>fetchLog := [''u'']\<rparr>)))))) = [''u'', ''u'', ''v'']"
proof -
  let ?st1 = "emptyCache\<lparr>fetchLog := [''u'']\<rparr>"
  note first = cache_stores_words_only [of emptyCache "''hello''" succeedsSecond "''u''" theCatSat]
  note second = cache_stores_words_only [of ?st1 "''hello''" succeedsSecond "''u''" theCatSat]
  have m0: "alignmentCache emptyCache ''hello'' = None
            \<and> (\<forall>ws. succeedsSecond (length (fetchLog emptyCache)) ''u'' \<noteq> Words ws)"
    by (simp add: emptyCache_def succeedsSecond_def)
  have m1: "alignmentCache ?st1 ''hello'' = None
            \<and> succeedsSecond (length (fetchLog ?st1)) ''u'' = Words theCatSat"
    by (simp add: emptyCache_def succeedsSecond_def)
  have a: "fetchAlignmentSync succeedsSecond ''u'' ''hello'' emptyCache = (None, ?st1)"
    using first m0 by (simp add: emptyCache_def)
  have b: "fst (fetchAlignmentSync succeedsSecond ''u'' ''hello'' ?st1) = Some theCatSat"
    using second m1 by blast
  have c: "fetchLog (snd (fetchAlignmentSync succeedsSecond ''u'' ''hello'' ?st1)) = [''u'', ''u'']"
    using second m1 by (simp add: emptyCache_def)
  let ?st2 = "snd (fetchAlignmentSync succeedsSecond ''u'' ''hello'' ?st1)"
  have hit: "fetchAlignmentSync succeedsSecond ''u'' ''hello''
                (afterRequests succeedsSecond [(''v'', ''other'')] ?st2) =
              (Some theCatSat, afterRequests succeedsSecond [(''v'', ''other'')] ?st2)"
    using second m1 by blast
  have d: "fetchLog (afterRequests succeedsSecond [(''v'', ''other'')] ?st2) = [''u'', ''u'', ''v'']"
    by (simp add: fetchAlignmentSync_def emptyCache_def succeedsSecond_def)
  from a b c d hit show ?thesis by simp
qed

end
